theory Spec2Isabelle
  imports
    Main
    "HOL-Library.AList"
    "HOL-Library.Multiset"
    "HOL-Library.Char_ord"
    "HOL-Library.List_Lexorder"
    "HOL-Library.Option_ord"
    "HOL-Library.Product_Lexorder"
begin

section \<open>Daily Progress Log API: data model\<close>

text \<open>
  The service of \<^verbatim>\<open>main.py\<close> maps five HTTP routes onto a document store that
  is partitioned by user. Strings are byte strings (\<open>char list\<close>), ordered
  lexicographically by byte value, which is the order the store uses on string fields.
\<close>

subsection \<open>LogEntry and LogEntryResponse\<close>

text \<open>
  \<^verbatim>\<open>class LogEntry(BaseModel)\<close>: four required strings, four optional strings whose
  default is \<^verbatim>\<open>None\<close>, and \<open>date\<close>, whose default is produced by
  \<^verbatim>\<open>datetime.now().isoformat()\<close> when the model is constructed.
\<close>

record LogEntry =
  taskDescription :: string
  project :: string
  status :: string
  priority :: string
  startTime :: "string option"
  endTime :: "string option"
  duration :: "string option"
  comments :: "string option"
  date :: string

text \<open>
  \<^verbatim>\<open>class LogEntryResponse(LogEntry)\<close> adds the document identifier. The field is
  called \<open>id\<close> in the source; it is \<open>id'\<close> here because \<open>id\<close> is the identity
  function of HOL.
\<close>

record LogEntryResponse = LogEntry +
  id' :: string

text \<open>
  Constructing a \<open>LogEntry\<close> from a caller's payload: an omitted optional field is
  \<open>None\<close>, an omitted \<open>date\<close> is the clock reading \<open>now\<close> (the result of
  \<^verbatim>\<open>datetime.now().isoformat()\<close> at construction time).
\<close>

definition LogEntry_init ::
  "string \<Rightarrow> string \<Rightarrow> string \<Rightarrow> string \<Rightarrow> string option \<Rightarrow> string option \<Rightarrow>
   string option \<Rightarrow> string option \<Rightarrow> string option \<Rightarrow> string \<Rightarrow> LogEntry" where
  "LogEntry_init td pj st pr stt ent dur com dt now =
     \<lparr>taskDescription = td, project = pj, status = st, priority = pr,
      startTime = stt, endTime = ent, duration = dur, comments = com,
      date = (case dt of None \<Rightarrow> now | Some d \<Rightarrow> d)\<rparr>"

subsection \<open>Documents\<close>

text \<open>
  A stored document is a dictionary from field names to values. The service only ever
  writes strings and \<^verbatim>\<open>None\<close>, so these are the two kinds of value of the model.
\<close>

datatype fs_value = Null | Str string

type_synonym document = "string \<rightharpoonup> fs_value"

fun dump_opt :: "string option \<Rightarrow> fs_value" where
  "dump_opt None = Null"
| "dump_opt (Some s) = Str s"

text \<open>\<^verbatim>\<open>log.model_dump()\<close>: the dictionary of all nine fields.\<close>

definition model_dump :: "LogEntry \<Rightarrow> document" where
  "model_dump log =
     [''taskDescription'' \<mapsto> Str (taskDescription log),
      ''project'' \<mapsto> Str (project log),
      ''status'' \<mapsto> Str (status log),
      ''priority'' \<mapsto> Str (priority log),
      ''startTime'' \<mapsto> dump_opt (startTime log),
      ''endTime'' \<mapsto> dump_opt (endTime log),
      ''duration'' \<mapsto> dump_opt (duration log),
      ''comments'' \<mapsto> dump_opt (comments log),
      ''date'' \<mapsto> Str (date log)]"

definition LogEntry_fields :: "string list" where
  "LogEntry_fields =
     [''taskDescription'', ''project'', ''status'', ''priority'',
      ''startTime'', ''endTime'', ''duration'', ''comments'', ''date'']"

subsection \<open>Exceptions\<close>

record HTTPException =
  status_code :: nat
  detail :: string

text \<open>
  The exceptions that can reach an \<^verbatim>\<open>except Exception\<close> clause of a handler.
  \<open>HTTPException\<close> is one of them: it derives from \<^verbatim>\<open>Exception\<close>.
  \<open>NotFound\<close> is the store's own exception for an update of a missing document.
\<close>

datatype py_exception =
    HTTPExc HTTPException
  | AttributeError string
  | TypeError string
  | ValidationError string
  | NotFound string

text \<open>The decimal digit of a number below ten.\<close>

definition digit_char :: "nat \<Rightarrow> char" where
  "digit_char n = ''0123456789'' ! (n mod 10)"

function string_of_nat :: "nat \<Rightarrow> string" where
  "string_of_nat n =
     (if n < 10 then [digit_char n]
      else string_of_nat (n div 10) @ [digit_char (n mod 10)])"
  by pat_completeness auto
termination
  by (relation "measure (\<lambda>n. n)") auto

text \<open>
  \<^verbatim>\<open>str(e)\<close> as interpolated by the f-strings of the handlers. For an
  \<open>HTTPException\<close> it is \<^verbatim>\<open>"{status_code}: {detail}"\<close>; the texts of the library
  exceptions are abbreviated to their first line.
\<close>

fun str_exc :: "py_exception \<Rightarrow> string" where
  "str_exc (HTTPExc e) = string_of_nat (status_code e) @ '': '' @ detail e"
| "str_exc (AttributeError a) =
     [CHR 0x27] @ ''NoneType'' @ [CHR 0x27] @ '' object has no attribute ''
       @ [CHR 0x27] @ a @ [CHR 0x27]"
| "str_exc (TypeError m) = m"
| "str_exc (ValidationError f) = ''1 validation error for LogEntryResponse: '' @ f"
| "str_exc (NotFound p) = ''404 No document to update: '' @ p"

subsection \<open>Building a LogEntryResponse from a stored dictionary\<close>

text \<open>
  \<^verbatim>\<open>LogEntryResponse(id=i, **d)\<close>. A key \<open>id\<close> in \<open>d\<close> collides with the keyword
  argument (\<^verbatim>\<open>TypeError\<close>). Otherwise the model validates: a required string must be
  present and a string, an optional one may be absent or \<^verbatim>\<open>None\<close>, an absent
  \<open>date\<close> takes the default, and keys that are no field of the model are ignored.
\<close>

definition required_str :: "document \<Rightarrow> string \<Rightarrow> py_exception + string" where
  "required_str d k =
     (case d k of Some (Str s) \<Rightarrow> Inr s | _ \<Rightarrow> Inl (ValidationError k))"

definition optional_str :: "document \<Rightarrow> string \<Rightarrow> string option" where
  "optional_str d k = (case d k of Some (Str s) \<Rightarrow> Some s | _ \<Rightarrow> None)"

definition date_str :: "string \<Rightarrow> document \<Rightarrow> py_exception + string" where
  "date_str now d =
     (case d ''date'' of
        None \<Rightarrow> Inr now
      | Some (Str s) \<Rightarrow> Inr s
      | Some Null \<Rightarrow> Inl (ValidationError ''date''))"

definition LogEntryResponse_init ::
  "string \<Rightarrow> string \<Rightarrow> document \<Rightarrow> py_exception + LogEntryResponse" where
  "LogEntryResponse_init now i d =
     (if d ''id'' \<noteq> None
      then Inl (TypeError ''LogEntryResponse() got multiple values for keyword argument id'')
      else
        (case required_str d ''taskDescription'' of
           Inl e \<Rightarrow> Inl e
         | Inr td \<Rightarrow>
        (case required_str d ''project'' of
           Inl e \<Rightarrow> Inl e
         | Inr pj \<Rightarrow>
        (case required_str d ''status'' of
           Inl e \<Rightarrow> Inl e
         | Inr st \<Rightarrow>
        (case required_str d ''priority'' of
           Inl e \<Rightarrow> Inl e
         | Inr pr \<Rightarrow>
        (case date_str now d of
           Inl e \<Rightarrow> Inl e
         | Inr dt \<Rightarrow>
             Inr \<lparr>taskDescription = td, project = pj, status = st, priority = pr,
                  startTime = optional_str d ''startTime'',
                  endTime = optional_str d ''endTime'',
                  duration = optional_str d ''duration'',
                  comments = optional_str d ''comments'',
                  date = dt, id' = i\<rparr>))))))"

section \<open>The document store\<close>

text \<open>
  Modelled from the spec: the document store is an external collaborator (section 6:
  collection-scoped create, get, list, update and delete addressed by a path string,
  with ordering on one field and existence checks). What the spec leaves open follows
  the documented behaviour of the store's client: \<^verbatim>\<open>set\<close> replaces a document,
  \<^verbatim>\<open>update\<close> writes the given fields and keeps the others, and an ordered query
  leaves out the documents that lack the ordering field. A store is a list of documents,
  each under its full path; a path occurs at most once in a well-formed store. The
  documents of a collection are those whose path is the collection path, a slash, and
  one non-empty segment without a slash (the document identifier).
\<close>

type_synonym firestore = "(string \<times> document) list"

definition is_doc_id :: "string \<Rightarrow> bool" where
  "is_doc_id i = (i \<noteq> [] \<and> CHR ''/'' \<notin> set i)"

definition child_id :: "string \<Rightarrow> string \<Rightarrow> string option" where
  "child_id cp p =
     (let pre = cp @ ''/''; i = drop (length pre) p
      in if take (length pre) p = pre \<and> is_doc_id i then Some i else None)"

text \<open>\<^verbatim>\<open>doc_ref.get()\<close>: the snapshot, \<open>None\<close> when the document does not exist.\<close>

definition doc_get :: "firestore \<Rightarrow> string \<Rightarrow> document option" where
  "doc_get st p = map_of st p"

text \<open>\<^verbatim>\<open>doc_ref.set(data)\<close>: creates the document or replaces it as a whole.\<close>

definition doc_set :: "firestore \<Rightarrow> string \<Rightarrow> document \<Rightarrow> firestore" where
  "doc_set st p d = AList.update p d st"

text \<open>
  \<^verbatim>\<open>doc_ref.update(data)\<close>: on an existing document the fields of \<open>data\<close> are
  written and the other fields of the document are kept; on a missing document the
  store raises (\<open>None\<close> here).
\<close>

definition doc_update :: "firestore \<Rightarrow> string \<Rightarrow> document \<Rightarrow> firestore option" where
  "doc_update st p d =
     (case map_of st p of
        None \<Rightarrow> None
      | Some old \<Rightarrow> Some (AList.update p (old ++ d) st))"

text \<open>\<^verbatim>\<open>doc_ref.delete()\<close>.\<close>

definition doc_delete :: "firestore \<Rightarrow> string \<Rightarrow> firestore" where
  "doc_delete st p = AList.delete p st"

text \<open>
  \<^verbatim>\<open>collection(cp).order_by(field, direction=DESCENDING).stream()\<close>: the documents
  of the collection that have the field, as pairs of identifier and dictionary, largest
  value first; \<^verbatim>\<open>None\<close> is below every string, and documents with equal values
  follow each other by identifier, also descending.
\<close>

fun fs_key :: "fs_value option \<Rightarrow> string option" where
  "fs_key (Some (Str s)) = Some s"
| "fs_key _ = None"

definition snapshot :: "string \<Rightarrow> string \<Rightarrow> string \<times> document \<Rightarrow> (string \<times> document) option" where
  "snapshot cp field e =
     (case child_id cp (fst e) of
        None \<Rightarrow> None
      | Some i \<Rightarrow> if snd e field = None then None else Some (i, snd e))"

definition order_key :: "string \<Rightarrow> string \<times> document \<Rightarrow> string option \<times> string" where
  "order_key field s = (fs_key (snd s field), fst s)"

definition order_by_desc_stream :: "string \<Rightarrow> string \<Rightarrow> firestore \<Rightarrow> (string \<times> document) list" where
  "order_by_desc_stream cp field st =
     rev (sort_key (order_key field) (List.map_filter (snapshot cp field) st))"

section \<open>Authentication\<close>

text \<open>
  \<^verbatim>\<open>s.split(sep)\<close> for a non-empty separator: the pieces of \<open>s\<close> between the
  occurrences of \<open>sep\<close>, found from left to right without overlap.
\<close>

function split_acc :: "string \<Rightarrow> string \<Rightarrow> string \<Rightarrow> string list" where
  "split_acc sep acc [] = [rev acc]"
| "split_acc sep acc (c # cs) =
     (if sep \<noteq> [] \<and> take (length sep) (c # cs) = sep
      then rev acc # split_acc sep [] (drop (length sep - 1) cs)
      else split_acc sep (c # acc) cs)"
  by pat_completeness auto
termination
  by (relation "measure (\<lambda>(sep, acc, s). length s)") auto

definition py_split :: "string \<Rightarrow> string \<Rightarrow> string list" where
  "py_split s sep = split_acc sep [] s"

text \<open>
  The token verifier is an external collaborator and a parameter of the model: it
  returns the decoded claims or raises. \<open>OtherError\<close> stands for every exception
  that is neither of the two named in the handler.
\<close>

datatype verify_error =
    InvalidIdTokenError string
  | ExpiredIdTokenError string
  | OtherError string

type_synonym verifier = "string \<Rightarrow> verify_error + (string \<rightharpoonup> string)"

text \<open>
  \<^verbatim>\<open>get_current_user\<close>. \<open>db\<close> is the module-level store handle, \<open>None\<close> when
  the initialisation failed; \<open>authorization\<close> is
  \<^verbatim>\<open>request.headers.get('Authorization')\<close>.
\<close>

definition get_current_user ::
  "verifier \<Rightarrow> firestore option \<Rightarrow> string option \<Rightarrow> HTTPException + string" where
  "get_current_user verify_id_token db authorization =
     (case db of
        None \<Rightarrow> Inl \<lparr>status_code = 500, detail = ''Firebase connection not available.''\<rparr>
      | Some _ \<Rightarrow>
        (case authorization of
           None \<Rightarrow> Inl \<lparr>status_code = 401, detail = ''Authorization header missing''\<rparr>
         | Some auth_header \<Rightarrow>
           if auth_header = []
           then Inl \<lparr>status_code = 401, detail = ''Authorization header missing''\<rparr>
           else
             (case py_split auth_header ''Bearer '' of
                _ # id_token # _ \<Rightarrow>
                  (case verify_id_token id_token of
                     Inl (InvalidIdTokenError m) \<Rightarrow>
                       Inl \<lparr>status_code = 401,
                            detail = ''Invalid or expired authentication token: '' @ m\<rparr>
                   | Inl (ExpiredIdTokenError m) \<Rightarrow>
                       Inl \<lparr>status_code = 401,
                            detail = ''Invalid or expired authentication token: '' @ m\<rparr>
                   | Inl (OtherError m) \<Rightarrow>
                       Inl \<lparr>status_code = 500,
                            detail = ''An error occurred during token verification: '' @ m\<rparr>
                   | Inr decoded_token \<Rightarrow>
                       (case decoded_token ''uid'' of
                          Some uid \<Rightarrow> Inr uid
                        | None \<Rightarrow>
                            Inl \<lparr>status_code = 500,
                                 detail = ''An error occurred during token verification: ''
                                   @ [CHR 0x27] @ ''uid'' @ [CHR 0x27]\<rparr>))
              | _ \<Rightarrow>
                  Inl \<lparr>status_code = 401,
                       detail = ''Invalid or expired authentication token: ''
                         @ ''list index out of range''\<rparr>)))"

section \<open>Endpoints\<close>

definition read_root :: "(string \<times> string) list" where
  "read_root = [(''message'', ''Welcome to the Daily Progress Log API!'')]"

definition appId :: string where
  "appId = ''default-app-id''"

definition collection_path :: "string \<Rightarrow> string" where
  "collection_path user_id = ''artifacts/'' @ appId @ ''/users/'' @ user_id @ ''/progress-logs''"

definition doc_path :: "string \<Rightarrow> string \<Rightarrow> string" where
  "doc_path user_id log_id =
     ''artifacts/'' @ appId @ ''/users/'' @ user_id @ ''/progress-logs/'' @ log_id"

text \<open>
  Every handler body is a \<^verbatim>\<open>try\<close> block whose \<^verbatim>\<open>except Exception as e\<close> clause
  raises a 500 with a prefix and \<^verbatim>\<open>str(e)\<close>. The \<open>_try\<close> functions are the
  blocks; \<open>except_500\<close> is the clause.
\<close>

definition except_500 :: "string \<Rightarrow> py_exception + 'a \<Rightarrow> HTTPException + 'a" where
  "except_500 prefix r =
     (case r of
        Inl e \<Rightarrow> Inl \<lparr>status_code = 500, detail = prefix @ str_exc e\<rparr>
      | Inr x \<Rightarrow> Inr x)"

text \<open>
  \<^verbatim>\<open>create_log\<close>. \<open>auto_id\<close> is the identifier that
  \<^verbatim>\<open>db.collection(collection_path).document()\<close> generates.
\<close>

definition create_log_try ::
  "string \<Rightarrow> string \<Rightarrow> LogEntry \<Rightarrow> string \<Rightarrow> firestore option \<Rightarrow>
   (py_exception + LogEntryResponse) \<times> firestore option" where
  "create_log_try now auto_id log user_id db =
     (case db of
        None \<Rightarrow> (Inl (AttributeError ''collection''), None)
      | Some st \<Rightarrow>
          let log_data = model_dump log;
              st' = doc_set st (collection_path user_id @ ''/'' @ auto_id) log_data
          in (LogEntryResponse_init now auto_id log_data, Some st'))"

definition create_log ::
  "string \<Rightarrow> string \<Rightarrow> LogEntry \<Rightarrow> string \<Rightarrow> firestore option \<Rightarrow>
   (HTTPException + LogEntryResponse) \<times> firestore option" where
  "create_log now auto_id log user_id db =
     (let (r, db') = create_log_try now auto_id log user_id db
      in (except_500 ''Failed to create log: '' r, db'))"

text \<open>\<^verbatim>\<open>get_logs\<close>: the loop over the stream stops at the first exception.\<close>

fun build_logs :: "string \<Rightarrow> (string \<times> document) list \<Rightarrow> py_exception + LogEntryResponse list" where
  "build_logs now [] = Inr []"
| "build_logs now (doc # docs) =
     (case LogEntryResponse_init now (fst doc) (snd doc) of
        Inl e \<Rightarrow> Inl e
      | Inr r \<Rightarrow> (case build_logs now docs of Inl e \<Rightarrow> Inl e | Inr rs \<Rightarrow> Inr (r # rs)))"

definition get_logs_try ::
  "string \<Rightarrow> string \<Rightarrow> firestore option \<Rightarrow> py_exception + LogEntryResponse list" where
  "get_logs_try now user_id db =
     (case db of
        None \<Rightarrow> Inl (AttributeError ''collection'')
      | Some st \<Rightarrow> build_logs now (order_by_desc_stream (collection_path user_id) ''date'' st))"

definition get_logs ::
  "string \<Rightarrow> string \<Rightarrow> firestore option \<Rightarrow> HTTPException + LogEntryResponse list" where
  "get_logs now user_id db = except_500 ''Failed to retrieve logs: '' (get_logs_try now user_id db)"

text \<open>\<^verbatim>\<open>update_log\<close>.\<close>

definition update_log_try ::
  "string \<Rightarrow> string \<Rightarrow> LogEntry \<Rightarrow> string \<Rightarrow> firestore option \<Rightarrow>
   (py_exception + LogEntryResponse) \<times> firestore option" where
  "update_log_try now log_id log user_id db =
     (case db of
        None \<Rightarrow> (Inl (AttributeError ''document''), None)
      | Some st \<Rightarrow>
          (case doc_get st (doc_path user_id log_id) of
             None \<Rightarrow> (Inl (HTTPExc \<lparr>status_code = 404, detail = ''Log not found''\<rparr>), Some st)
           | Some _ \<Rightarrow>
               let log_data = model_dump log
               in (case doc_update st (doc_path user_id log_id) log_data of
                     None \<Rightarrow> (Inl (NotFound (doc_path user_id log_id)), Some st)
                   | Some st' \<Rightarrow>
                       (case doc_get st' (doc_path user_id log_id) of
                          None \<Rightarrow>
                            (Inl (TypeError
                                   ''argument after ** must be a mapping, not NoneType''),
                             Some st')
                        | Some updated_log_data \<Rightarrow>
                            (LogEntryResponse_init now log_id updated_log_data, Some st')))))"

definition update_log ::
  "string \<Rightarrow> string \<Rightarrow> LogEntry \<Rightarrow> string \<Rightarrow> firestore option \<Rightarrow>
   (HTTPException + LogEntryResponse) \<times> firestore option" where
  "update_log now log_id log user_id db =
     (let (r, db') = update_log_try now log_id log user_id db
      in (except_500 ''Failed to update log: '' r, db'))"

text \<open>\<^verbatim>\<open>delete_log\<close>.\<close>

definition delete_log_try ::
  "string \<Rightarrow> string \<Rightarrow> firestore option \<Rightarrow> (py_exception + unit) \<times> firestore option" where
  "delete_log_try log_id user_id db =
     (case db of
        None \<Rightarrow> (Inl (AttributeError ''document''), None)
      | Some st \<Rightarrow>
          (case doc_get st (doc_path user_id log_id) of
             None \<Rightarrow> (Inl (HTTPExc \<lparr>status_code = 404, detail = ''Log not found''\<rparr>), Some st)
           | Some _ \<Rightarrow> (Inr (), Some (doc_delete st (doc_path user_id log_id)))))"

definition delete_log ::
  "string \<Rightarrow> string \<Rightarrow> firestore option \<Rightarrow> (HTTPException + unit) \<times> firestore option" where
  "delete_log log_id user_id db =
     (let (r, db') = delete_log_try log_id user_id db
      in (except_500 ''Failed to delete log: '' r, db'))"

subsection \<open>The router\<close>

text \<open>
  The five routes registered on \<^verbatim>\<open>app\<close>. A request carries its
  \<^verbatim>\<open>Authorization\<close> header (if any); the body of a POST or PUT is the validated
  \<open>LogEntry\<close>. The routes under \<^verbatim>\<open>/logs\<close> depend on \<open>get_current_user\<close>, which
  runs before the handler; the root route has no dependency.
\<close>

datatype request =
    GET_root
  | POST_logs LogEntry
  | GET_logs
  | PUT_logs string LogEntry
  | DELETE_logs string

datatype body =
    JsonMessage "(string \<times> string) list"
  | JsonLog LogEntryResponse
  | JsonLogs "LogEntryResponse list"
  | NoContent

type_synonym response = "HTTPException + nat \<times> body"

definition respond :: "nat \<Rightarrow> ('a \<Rightarrow> body) \<Rightarrow> HTTPException + 'a \<Rightarrow> response" where
  "respond code f r = (case r of Inl e \<Rightarrow> Inl e | Inr x \<Rightarrow> Inr (code, f x))"

text \<open>
  \<^verbatim>\<open>user_id: str = Depends(get_current_user)\<close>: the handler runs with the user
  identifier, or the request ends with the exception of the dependency.
\<close>

definition Depends_get_current_user ::
  "verifier \<Rightarrow> firestore option \<Rightarrow> string option \<Rightarrow>
   (string \<Rightarrow> response \<times> firestore option) \<Rightarrow> response \<times> firestore option" where
  "Depends_get_current_user verify_id_token db authorization handler =
     (case get_current_user verify_id_token db authorization of
        Inl e \<Rightarrow> (Inl e, db)
      | Inr user_id \<Rightarrow> handler user_id)"

definition app ::
  "verifier \<Rightarrow> string \<Rightarrow> string \<Rightarrow> firestore option \<Rightarrow> string option \<Rightarrow> request \<Rightarrow>
   response \<times> firestore option" where
  "app verify_id_token now auto_id db authorization req =
     (case req of
        GET_root \<Rightarrow> (Inr (200, JsonMessage read_root), db)
      | POST_logs log \<Rightarrow>
          Depends_get_current_user verify_id_token db authorization
            (\<lambda>user_id. let (r, db') = create_log now auto_id log user_id db
                       in (respond 200 JsonLog r, db'))
      | GET_logs \<Rightarrow>
          Depends_get_current_user verify_id_token db authorization
            (\<lambda>user_id. (respond 200 JsonLogs (get_logs now user_id db), db))
      | PUT_logs log_id log \<Rightarrow>
          Depends_get_current_user verify_id_token db authorization
            (\<lambda>user_id. let (r, db') = update_log now log_id log user_id db
                       in (respond 200 JsonLog r, db'))
      | DELETE_logs log_id \<Rightarrow>
          Depends_get_current_user verify_id_token db authorization
            (\<lambda>user_id. let (r, db') = delete_log log_id user_id db
                       in (respond 204 (\<lambda>_. NoContent) r, db')))"

section \<open>Vocabulary of the properties\<close>

text \<open>
  The record returned by \<open>create_log\<close> and \<open>update_log\<close> for an entry \<open>log\<close> stored
  under the identifier \<open>i\<close>.
\<close>

definition with_id :: "LogEntry \<Rightarrow> string \<Rightarrow> LogEntryResponse" where
  "with_id log i = LogEntry.extend log (LogEntryResponse.fields i)"

text \<open>The identifier and the dictionary that a listed record stands for.\<close>

definition stored_form :: "LogEntryResponse \<Rightarrow> string \<times> document" where
  "stored_form r = (id' r, model_dump (LogEntry.truncate r))"

text \<open>
  The documents of a user's namespace: the documents of the collection
  \<open>collection_path user_id\<close>, each with its identifier.
\<close>

definition namespace_entry :: "string \<Rightarrow> string \<times> document \<Rightarrow> (string \<times> document) option" where
  "namespace_entry user_id e =
     (case child_id (collection_path user_id) (fst e) of None \<Rightarrow> None | Some i \<Rightarrow> Some (i, snd e))"

definition namespace_docs :: "string \<Rightarrow> firestore \<Rightarrow> (string \<times> document) list" where
  "namespace_docs user_id st = List.map_filter (namespace_entry user_id) st"

text \<open>
  A document as the service writes it: exactly the nine fields of \<open>LogEntry\<close>, the four
  required ones and \<open>date\<close> holding strings. A store is well formed for a user when
  no path occurs twice and every document of the user's namespace has this shape; the
  empty store is, and the handlers keep it so (lemmas \<open>wf_namespace_empty\<close>,
  \<open>wf_namespace_create_log\<close>, \<open>wf_namespace_update_log\<close>, \<open>wf_namespace_delete_log\<close>).
\<close>

fun is_str :: "fs_value option \<Rightarrow> bool" where
  "is_str (Some (Str s)) = True"
| "is_str _ = False"

definition log_document :: "document \<Rightarrow> bool" where
  "log_document d =
     (dom d = set LogEntry_fields \<and> is_str (d ''taskDescription'') \<and> is_str (d ''project'')
      \<and> is_str (d ''status'') \<and> is_str (d ''priority'') \<and> is_str (d ''date''))"

definition wf_namespace :: "string \<Rightarrow> firestore \<Rightarrow> bool" where
  "wf_namespace user_id st =
     (distinct (map fst st) \<and> list_all (\<lambda>e. log_document (snd e)) (namespace_docs user_id st))"

text \<open>\<open>occurs_in sep s\<close>: the string \<open>sep\<close> occurs somewhere in \<open>s\<close>.\<close>

fun occurs_in :: "string \<Rightarrow> string \<Rightarrow> bool" where
  "occurs_in sep [] = (sep = [])"
| "occurs_in sep (c # cs) = (take (length sep) (c # cs) = sep \<or> occurs_in sep cs)"

subsection \<open>Concrete inputs\<close>

text \<open>
  A verifier that accepts the token \<open>tok\<close> for the user \<open>u1\<close> and rejects every other
  token, an entry whose optional fields and date are left to the defaults, a store
  with two documents of \<open>u1\<close> and one of \<open>u2\<close>, and a store whose one document
  has a field \<open>owner\<close>, which is no field of \<open>LogEntry\<close>.
\<close>

definition example_verifier :: verifier where
  "example_verifier t =
     (if t = ''tok'' then Inr [''uid'' \<mapsto> ''u1'']
      else Inl (InvalidIdTokenError ''Token rejected''))"

definition example_log :: LogEntry where
  "example_log =
     LogEntry_init ''Write spec'' ''Docs'' ''done'' ''high'' None None None None None
       ''2026-01-01T10:00:00''"

definition example_store :: firestore where
  "example_store =
     [(doc_path ''u1'' ''a1'', model_dump example_log),
      (doc_path ''u2'' ''b1'', model_dump (example_log\<lparr>date := ''2026-02-01T09:00:00''\<rparr>)),
      (doc_path ''u1'' ''a2'',
         model_dump (example_log\<lparr>startTime := Some ''09:00'', date := ''2026-03-01T09:00:00''\<rparr>))]"

definition foreign_doc :: document where
  "foreign_doc =
     (model_dump (example_log\<lparr>startTime := Some ''09:00''\<rparr>))(''owner'' \<mapsto> Str ''legacy'')"

definition foreign_store :: firestore where
  "foreign_store = [(doc_path ''u1'' ''a3'', foreign_doc)]"

section \<open>Auxiliary facts\<close>

subsection \<open>Records and dictionaries\<close>

lemma undump_opt: "(case dump_opt x of Null \<Rightarrow> None | Str s \<Rightarrow> Some s) = x"
  by (cases x) simp_all

lemma init_dump: "LogEntryResponse_init now i (model_dump log) = Inr (with_id log i)"
  by (cases log) (simp add: LogEntryResponse_init_def model_dump_def required_str_def optional_str_def date_str_def with_id_def LogEntry.defs LogEntryResponse.defs undump_opt)

lemma stored_form_with_id: "stored_form (with_id log i) = (i, model_dump log)"
  by (cases log) (simp add: stored_form_def with_id_def LogEntry.defs LogEntryResponse.defs)

lemma is_strE: "is_str v \<Longrightarrow> \<exists>s. v = Some (Str s)"
  by (cases v rule: is_str.cases) simp_all

lemma dump_opt_surj: "\<exists>x. v = dump_opt x"
proof (cases v)
  case Null
  then have "v = dump_opt None" by simp
  then show ?thesis ..
next
  case (Str s)
  then have "v = dump_opt (Some s)" by simp
  then show ?thesis ..
qed

lemma dom_model_dump: "dom (model_dump log) = set LogEntry_fields"
  by (auto simp: model_dump_def LogEntry_fields_def)

lemma log_document_model_dump: "log_document (model_dump log)"
  unfolding log_document_def dom_model_dump
  by (simp add: model_dump_def)

lemma log_document_dump:
  assumes "log_document d"
  shows "\<exists>log. d = model_dump log"
proof -
  from assms have dm: "dom d = set LogEntry_fields" by (simp add: log_document_def)
  from assms obtain td pj st pr dt where
    req: "d ''taskDescription'' = Some (Str td)" "d ''project'' = Some (Str pj)"
      "d ''status'' = Some (Str st)" "d ''priority'' = Some (Str pr)" "d ''date'' = Some (Str dt)"
    unfolding log_document_def by (blast dest: is_strE)
  have opt: "\<exists>x. d k = Some (dump_opt x)" if "k \<in> set LogEntry_fields" for k
  proof -
    from that dm obtain v where "d k = Some v" by blast
    then show ?thesis using dump_opt_surj[of v] by auto
  qed
  obtain stt where stt: "d ''startTime'' = Some (dump_opt stt)"
    using opt[of "''startTime''"] by (auto simp: LogEntry_fields_def)
  obtain ent where ent: "d ''endTime'' = Some (dump_opt ent)"
    using opt[of "''endTime''"] by (auto simp: LogEntry_fields_def)
  obtain dur where dur: "d ''duration'' = Some (dump_opt dur)"
    using opt[of "''duration''"] by (auto simp: LogEntry_fields_def)
  obtain com where com: "d ''comments'' = Some (dump_opt com)"
    using opt[of "''comments''"] by (auto simp: LogEntry_fields_def)
  let ?log = "\<lparr>taskDescription = td, project = pj, status = st, priority = pr,
      startTime = stt, endTime = ent, duration = dur, comments = com, date = dt\<rparr>"
  have "d k = model_dump ?log k" for k
  proof (cases "k \<in> set LogEntry_fields")
    case True
    then show ?thesis
      using req stt ent dur com
      by (auto simp: LogEntry_fields_def model_dump_def)
  next
    case False
    with dm have "d k = None" by blast
    moreover from False have "model_dump ?log k = None"
      using dom_model_dump[of ?log] by blast
    ultimately show ?thesis by simp
  qed
  then have "d = model_dump ?log" by (rule ext)
  then show ?thesis ..
qed

lemma model_dump_inj:
  assumes "model_dump a = model_dump b"
  shows "a = b"
proof -
  have f: "model_dump a k = model_dump b k" for k using assms by simp
  have inj: "dump_opt x = dump_opt y \<Longrightarrow> x = y" for x y
    by (cases x; cases y) simp_all
  show ?thesis
    using f[of "''taskDescription''"] f[of "''project''"] f[of "''status''"] f[of "''priority''"]
      f[of "''startTime''"] f[of "''endTime''"] f[of "''duration''"] f[of "''comments''"]
      f[of "''date''"]
    by (cases a; cases b) (simp add: model_dump_def inj)
qed

lemma stored_form_inj:
  assumes "stored_form r = stored_form r'"
  shows "r = r'"
proof -
  from assms have i: "id' r = id' r'" and "model_dump (LogEntry.truncate r) = model_dump (LogEntry.truncate r')"
    by (simp_all add: stored_form_def)
  then have "LogEntry.truncate r = LogEntry.truncate r'" by (rule_tac model_dump_inj)
  with i show ?thesis
    by (cases r; cases r') (simp add: LogEntry.defs)
qed

lemma init_log_document:
  assumes "log_document d"
  shows "\<exists>r. LogEntryResponse_init now i d = Inr r \<and> stored_form r = (i, d)"
proof -
  from assms obtain log where "d = model_dump log" by (blast dest: log_document_dump)
  then show ?thesis by (simp add: init_dump stored_form_with_id)
qed

lemma build_logs_wf:
  "list_all (\<lambda>e. log_document (snd e)) docs \<Longrightarrow>
   \<exists>logs. build_logs now docs = Inr logs \<and> map stored_form logs = docs"
proof (induction docs)
  case Nil
  then show ?case by simp
next
  case (Cons e docs)
  then obtain logs where l: "build_logs now docs = Inr logs" "map stored_form logs = docs"
    by auto
  from Cons.prems have "log_document (snd e)" by simp
  then obtain r where "LogEntryResponse_init now (fst e) (snd e) = Inr r" "stored_form r = (fst e, snd e)"
    using init_log_document by blast
  with l show ?case by simp
qed

lemma map_add_twice: "(m ++ n) ++ n = m ++ n"
  by (rule ext) (simp add: map_add_def split: option.splits)

lemma map_add_absorb:
  assumes "dom old \<subseteq> dom d"
  shows "old ++ d = d"
proof (rule ext)
  fix k
  show "(old ++ d) k = d k"
  proof (cases "d k")
    case None
    then have "k \<notin> dom d" by (simp add: domIff)
    with assms have "old k = None" by blast
    with None show ?thesis by (simp add: map_add_def)
  next
    case (Some v)
    then show ?thesis by (simp add: map_add_def)
  qed
qed

lemma init_now_irrelevant:
  "d ''date'' \<noteq> None \<Longrightarrow> LogEntryResponse_init now i d = LogEntryResponse_init now' i d"
  by (auto simp: LogEntryResponse_init_def date_str_def split: sum.splits option.splits fs_value.splits)

lemma model_dump_date: "model_dump log ''date'' = Some (Str (date log))"
  by (simp add: model_dump_def)

lemma log_document_date: "log_document d \<Longrightarrow> d ''date'' \<noteq> None"
proof -
  assume "log_document d"
  then have "is_str (d ''date'')" by (simp add: log_document_def)
  then obtain s where "d ''date'' = Some (Str s)" using is_strE by blast
  then show ?thesis by simp
qed

lemma model_dump_field:
  assumes "f \<in> set LogEntry_fields"
  shows "(old ++ model_dump log) f = model_dump log f"
proof -
  from assms have "f \<in> dom (model_dump log)" by (simp add: dom_model_dump)
  then obtain v where "model_dump log f = Some v" by blast
  then show ?thesis by (simp add: map_add_def)
qed

lemma model_dump_other:
  assumes "f \<notin> set LogEntry_fields"
  shows "(old ++ model_dump log) f = old f"
proof -
  from assms have "f \<notin> dom (model_dump log)" by (simp add: dom_model_dump)
  then have "model_dump log f = None" by blast
  then show ?thesis by (simp add: map_add_def)
qed

lemma init_agree:
  assumes "d1 ''id'' = d2 ''id''" and "\<And>f. f \<in> set LogEntry_fields \<Longrightarrow> d1 f = d2 f"
  shows "LogEntryResponse_init now i d1 = LogEntryResponse_init now i d2"
proof -
  have e: "d1 f = d2 f" if "f \<in> set LogEntry_fields" for f using that by (rule assms(2))
  have r: "required_str d1 ''taskDescription'' = required_str d2 ''taskDescription''"
    "required_str d1 ''project'' = required_str d2 ''project''"
    "required_str d1 ''status'' = required_str d2 ''status''"
    "required_str d1 ''priority'' = required_str d2 ''priority''"
    by (simp_all add: required_str_def e LogEntry_fields_def)
  have o: "optional_str d1 ''startTime'' = optional_str d2 ''startTime''"
    "optional_str d1 ''endTime'' = optional_str d2 ''endTime''"
    "optional_str d1 ''duration'' = optional_str d2 ''duration''"
    "optional_str d1 ''comments'' = optional_str d2 ''comments''"
    by (simp_all add: optional_str_def e LogEntry_fields_def)
  have d: "date_str now d1 = date_str now d2"
    by (simp add: date_str_def e LogEntry_fields_def)
  show ?thesis
    unfolding LogEntryResponse_init_def r o d assms(1) ..
qed

lemma init_merged:
  assumes "old ''id'' = None"
  shows "LogEntryResponse_init now i (old ++ model_dump log) = Inr (with_id log i)"
proof -
  have "''id'' \<notin> set LogEntry_fields" by (simp add: LogEntry_fields_def)
  then have "(old ++ model_dump log) ''id'' = old ''id''" by (rule model_dump_other)
  moreover have "model_dump log ''id'' = None" by (simp add: model_dump_def)
  ultimately have "(old ++ model_dump log) ''id'' = model_dump log ''id''" using assms by simp
  then have "LogEntryResponse_init now i (old ++ model_dump log)
      = LogEntryResponse_init now i (model_dump log)"
    by (rule init_agree) (rule model_dump_field)
  then show ?thesis by (simp add: init_dump)
qed

subsection \<open>Paths\<close>

lemma first_sep_unique:
  "u @ c # x = v @ c # y \<Longrightarrow> c \<notin> set u \<Longrightarrow> c \<notin> set v \<Longrightarrow> u = v \<and> x = y"
proof (induction u arbitrary: v)
  case Nil
  then show ?case by (cases v) auto
next
  case (Cons a u)
  then show ?case by (cases v) auto
qed

lemma append_sep_unique:
  assumes "xs @ c # a = ys @ c # b" "c \<notin> set a" "c \<notin> set b"
  shows "xs = ys \<and> a = b"
proof -
  from assms(1) have "rev (xs @ c # a) = rev (ys @ c # b)" by simp
  then have "rev a @ c # rev xs = rev b @ c # rev ys" by simp
  with assms(2,3) show ?thesis
    using first_sep_unique[of "rev a" c "rev xs" "rev b" "rev ys"] by simp
qed

lemma collection_path_inj: "collection_path a = collection_path b \<Longrightarrow> a = b"
  by (simp add: collection_path_def)

lemma child_id_Some: "child_id cp p = Some i \<longleftrightarrow> p = cp @ ''/'' @ i \<and> is_doc_id i"
proof
  assume "child_id cp p = Some i"
  then have t: "take (length (cp @ ''/'')) p = cp @ ''/''" and i: "i = drop (length (cp @ ''/'')) p"
    and d: "is_doc_id i"
    by (auto simp: child_id_def Let_def split: if_splits)
  have "p = take (length (cp @ ''/'')) p @ drop (length (cp @ ''/'')) p"
    by (rule append_take_drop_id [symmetric])
  with t i have "p = (cp @ ''/'') @ i" by simp
  with d show "p = cp @ ''/'' @ i \<and> is_doc_id i" by simp
next
  assume "p = cp @ ''/'' @ i \<and> is_doc_id i"
  then show "child_id cp p = Some i"
    by (simp add: child_id_def Let_def)
qed

lemma child_other:
  assumes "a \<noteq> b" "is_doc_id i"
  shows "child_id (collection_path b) (collection_path a @ ''/'' @ i) = None"
proof (cases "child_id (collection_path b) (collection_path a @ ''/'' @ i)")
  case None then show ?thesis .
next
  case (Some j)
  then have eq: "collection_path a @ ''/'' @ i = collection_path b @ ''/'' @ j" and j: "is_doc_id j"
    by (simp_all add: child_id_Some)
  from eq have "collection_path a @ CHR ''/'' # i = collection_path b @ CHR ''/'' # j" by simp
  with assms(2) j have "collection_path a = collection_path b"
    using append_sep_unique[of "collection_path a" "CHR ''/''" i "collection_path b" j]
    by (simp add: is_doc_id_def)
  with assms(1) show ?thesis by (simp add: collection_path_inj)
qed

subsection \<open>The store\<close>

lemma map_filter_update_outside:
  "(\<And>v. f (k, v) = None) \<Longrightarrow> List.map_filter f (AList.update k d st) = List.map_filter f st"
  by (induction st) (auto split: option.splits)

lemma stream_create_other:
  assumes "child_id cp p = None"
  shows "order_by_desc_stream cp field (doc_set st p d) = order_by_desc_stream cp field st"
  using assms
  by (simp add: order_by_desc_stream_def doc_set_def map_filter_update_outside snapshot_def)

lemma doc_update_existing:
  "doc_get st p = Some old \<Longrightarrow> doc_update st p d = Some (doc_set st p (old ++ d))"
  by (simp add: doc_get_def doc_update_def doc_set_def)

lemma doc_get_doc_set: "doc_get (doc_set st p d) p = Some d"
  by (simp add: doc_get_def doc_set_def update_conv')

lemma doc_set_twice: "doc_set (doc_set st p d') p d = doc_set st p d"
  by (simp add: doc_set_def)

lemma doc_set_member: "(p, d) \<in> set (doc_set st p d)"
proof -
  have "map_of (doc_set st p d) p = Some d" by (simp add: doc_set_def update_conv')
  then show ?thesis by (rule map_of_SomeD)
qed

lemma set_update_subset: "set (AList.update k v al) \<subseteq> insert (k, v) (set al)"
  by (induction al) auto

lemma map_filter_cong_set:
  "(\<And>x. x \<in> set xs \<Longrightarrow> f x = g x) \<Longrightarrow> List.map_filter f xs = List.map_filter g xs"
  by (induction xs) (auto split: option.splits)

lemma set_map_filter: "set (List.map_filter f xs) = {y. \<exists>x \<in> set xs. f x = Some y}"
  by (induction xs) (auto split: option.splits)

lemma namespace_entry_Some:
  "namespace_entry user_id e = Some (i, d)
     \<longleftrightarrow> fst e = collection_path user_id @ ''/'' @ i \<and> is_doc_id i \<and> snd e = d"
proof (cases "child_id (collection_path user_id) (fst e)")
  case None
  then have "\<not> (fst e = collection_path user_id @ ''/'' @ i \<and> is_doc_id i)"
    using child_id_Some[of "collection_path user_id" "fst e" i] by simp
  with None show ?thesis by (auto simp: namespace_entry_def)
next
  case (Some j)
  then have j: "fst e = collection_path user_id @ ''/'' @ j" "is_doc_id j"
    by (simp_all add: child_id_Some)
  from Some show ?thesis
    using j by (auto simp: namespace_entry_def)
qed

lemma namespace_docs_iff:
  "(i, d) \<in> set (namespace_docs user_id st)
     \<longleftrightarrow> (collection_path user_id @ ''/'' @ i, d) \<in> set st \<and> is_doc_id i"
proof
  assume "(i, d) \<in> set (namespace_docs user_id st)"
  then obtain e where "e \<in> set st" "namespace_entry user_id e = Some (i, d)"
    by (auto simp: namespace_docs_def set_map_filter)
  moreover obtain p d' where "e = (p, d')" by (cases e)
  ultimately show "(collection_path user_id @ ''/'' @ i, d) \<in> set st \<and> is_doc_id i"
    by (simp add: namespace_entry_Some)
next
  assume a: "(collection_path user_id @ ''/'' @ i, d) \<in> set st \<and> is_doc_id i"
  then have "namespace_entry user_id (collection_path user_id @ ''/'' @ i, d) = Some (i, d)"
    by (simp add: namespace_entry_Some)
  with a show "(i, d) \<in> set (namespace_docs user_id st)"
    unfolding namespace_docs_def set_map_filter by blast
qed

lemma distinct_namespace_docs:
  "distinct (map fst st) \<Longrightarrow> distinct (map fst (namespace_docs user_id st))"
proof (induction st)
  case Nil
  then show ?case by (simp add: namespace_docs_def)
next
  case (Cons e st)
  then have IH: "distinct (map fst (namespace_docs user_id st))" by simp
  show ?case
  proof (cases "child_id (collection_path user_id) (fst e)")
    case None
    with IH show ?thesis by (simp add: namespace_docs_def namespace_entry_def)
  next
    case (Some i)
    then have p: "fst e = collection_path user_id @ ''/'' @ i" by (simp add: child_id_Some)
    have "i \<notin> fst ` set (namespace_docs user_id st)"
    proof
      assume "i \<in> fst ` set (namespace_docs user_id st)"
      then obtain d where "(i, d) \<in> set (namespace_docs user_id st)" by auto
      then have "(fst e, d) \<in> set st" using p by (simp add: namespace_docs_iff)
      then have "fst (fst e, d) \<in> fst ` set st" by (rule imageI)
      then have "fst e \<in> fst ` set st" by simp
      with Cons.prems show False by simp
    qed
    with IH Some show ?thesis by (simp add: namespace_docs_def namespace_entry_def)
  qed
qed

lemma namespace_docs_member:
  assumes "e \<in> set st" and "child_id (collection_path user_id) (fst e) = Some i"
  shows "(i, snd e) \<in> set (namespace_docs user_id st)"
proof -
  from assms(2) have "namespace_entry user_id e = Some (i, snd e)"
    by (simp add: namespace_entry_def)
  with assms(1) show ?thesis
    unfolding namespace_docs_def set_map_filter by blast
qed

lemma stream_wf:
  assumes "list_all (\<lambda>e. log_document (snd e)) (namespace_docs user_id st)"
  shows "order_by_desc_stream (collection_path user_id) ''date'' st
           = rev (sort_key (order_key ''date'') (namespace_docs user_id st))"
proof -
  have "snapshot (collection_path user_id) ''date'' e = namespace_entry user_id e"
    if "e \<in> set st" for e
  proof (cases "child_id (collection_path user_id) (fst e)")
    case None
    then show ?thesis by (simp add: snapshot_def namespace_entry_def)
  next
    case (Some i)
    with that have "(i, snd e) \<in> set (namespace_docs user_id st)"
      by (rule namespace_docs_member)
    with assms have "log_document (snd (i, snd e))"
      unfolding list_all_iff by (rule bspec)
    then have "snd e ''date'' \<noteq> None" by (simp add: log_document_date)
    with Some show ?thesis by (simp add: snapshot_def namespace_entry_def)
  qed
  then have "List.map_filter (snapshot (collection_path user_id) ''date'') st
      = List.map_filter (namespace_entry user_id) st"
    by (rule map_filter_cong_set)
  then show ?thesis
    by (simp only: order_by_desc_stream_def namespace_docs_def)
qed

lemma namespace_docs_doc_set_subset:
  "set (namespace_docs user_id (doc_set st (collection_path user_id @ ''/'' @ i) d))
     \<subseteq> insert (i, d) (set (namespace_docs user_id st))"
proof
  fix x
  assume x: "x \<in> set (namespace_docs user_id (doc_set st (collection_path user_id @ ''/'' @ i) d))"
  obtain j d' where xe: "x = (j, d')" by (cases x)
  with x have m: "(collection_path user_id @ ''/'' @ j, d') \<in> set (doc_set st (collection_path user_id @ ''/'' @ i) d)"
    and j: "is_doc_id j"
    by (simp_all add: namespace_docs_iff)
  from m have "(collection_path user_id @ ''/'' @ j, d') = (collection_path user_id @ ''/'' @ i, d)
      \<or> (collection_path user_id @ ''/'' @ j, d') \<in> set st"
    using set_update_subset[of "collection_path user_id @ ''/'' @ i" d st]
    unfolding doc_set_def by blast
  then show "x \<in> insert (i, d) (set (namespace_docs user_id st))"
  proof
    assume "(collection_path user_id @ ''/'' @ j, d') = (collection_path user_id @ ''/'' @ i, d)"
    then have "j = i" "d' = d" by simp_all
    with xe show ?thesis by simp
  next
    assume "(collection_path user_id @ ''/'' @ j, d') \<in> set st"
    with j xe show ?thesis by (simp add: namespace_docs_iff)
  qed
qed

lemma wf_namespace_doc_set:
  assumes "wf_namespace user_id st"
    and "\<And>i. child_id (collection_path user_id) p = Some i \<Longrightarrow> log_document d"
  shows "wf_namespace user_id (doc_set st p d)"
proof -
  from assms(1) have "distinct (map fst (doc_set st p d))"
    by (simp add: wf_namespace_def doc_set_def distinct_update)
  moreover have "log_document (snd e)" if "e \<in> set (namespace_docs user_id (doc_set st p d))" for e
  proof -
    obtain j d' where e: "e = (j, d')" by (cases e)
    with that have "(collection_path user_id @ ''/'' @ j, d') \<in> set (doc_set st p d)"
      and j: "is_doc_id j"
      by (simp_all add: namespace_docs_iff)
    then have "(collection_path user_id @ ''/'' @ j, d') = (p, d)
        \<or> (collection_path user_id @ ''/'' @ j, d') \<in> set st"
      using set_update_subset[of p d st] unfolding doc_set_def by blast
    then show ?thesis
    proof
      assume eq: "(collection_path user_id @ ''/'' @ j, d') = (p, d)"
      with j have "child_id (collection_path user_id) p = Some j"
        using child_id_Some[of "collection_path user_id" p j] by simp
      then have "log_document d" by (rule assms(2))
      with eq e show ?thesis by simp
    next
      assume "(collection_path user_id @ ''/'' @ j, d') \<in> set st"
      with j have "(j, d') \<in> set (namespace_docs user_id st)" by (simp add: namespace_docs_iff)
      with assms(1) have "log_document (snd (j, d'))"
        unfolding wf_namespace_def list_all_iff by blast
      with e show ?thesis by simp
    qed
  qed
  ultimately show ?thesis
    unfolding wf_namespace_def list_all_iff by blast
qed

lemma wf_namespace_empty: "wf_namespace user_id []"
  by (simp add: wf_namespace_def namespace_docs_def)

lemma wf_namespace_doc_update:
  assumes "wf_namespace user_id st" and "doc_get st p = Some old"
  shows "wf_namespace user_id (doc_set st p (old ++ model_dump log))"
proof -
  have "log_document (old ++ model_dump log)"
    if c: "child_id (collection_path user_id) p = Some i" for i
  proof -
    from assms(2) have "(p, old) \<in> set st" unfolding doc_get_def by (rule map_of_SomeD)
    then have "(i, snd (p, old)) \<in> set (namespace_docs user_id st)"
      using c by (intro namespace_docs_member) simp_all
    with assms(1) have "log_document (snd (i, snd (p, old)))"
      unfolding wf_namespace_def list_all_iff by blast
    then have "dom old \<subseteq> dom (model_dump log)"
      by (simp add: log_document_def dom_model_dump)
    then have "old ++ model_dump log = model_dump log" by (rule map_add_absorb)
    then show ?thesis by (simp add: log_document_model_dump)
  qed
  with assms(1) show ?thesis
    by (rule wf_namespace_doc_set)
qed

lemma set_delete_subset: "set (AList.delete k al) \<subseteq> set al"
  by (induction al) auto

lemma wf_namespace_doc_delete:
  assumes "wf_namespace user_id st"
  shows "wf_namespace user_id (doc_delete st p)"
proof -
  from assms have "distinct (map fst (doc_delete st p))"
    by (simp add: wf_namespace_def doc_delete_def distinct_delete)
  moreover have "log_document (snd e)" if "e \<in> set (namespace_docs user_id (doc_delete st p))" for e
  proof -
    obtain j d' where e: "e = (j, d')" by (cases e)
    with that have "(collection_path user_id @ ''/'' @ j, d') \<in> set (doc_delete st p)"
      and j: "is_doc_id j"
      by (simp_all add: namespace_docs_iff)
    then have "(collection_path user_id @ ''/'' @ j, d') \<in> set st"
      using set_delete_subset[of p st] unfolding doc_delete_def by blast
    with j have "(j, d') \<in> set (namespace_docs user_id st)" by (simp add: namespace_docs_iff)
    with assms have "log_document (snd (j, d'))"
      unfolding wf_namespace_def list_all_iff by blast
    with e show ?thesis by simp
  qed
  ultimately show ?thesis
    unfolding wf_namespace_def list_all_iff by blast
qed

subsection \<open>Lists of records\<close>

lemma order_key_stored_form: "order_key ''date'' (stored_form r) = (Some (date r), id' r)"
  by (cases r) (simp add: order_key_def stored_form_def model_dump_def LogEntry.defs)

lemma sorted_desc_logs:
  assumes "map stored_form logs = rev (sort_key (order_key ''date'') docs)"
  shows "sorted_wrt (\<lambda>a b. date b \<le> date a) logs"
proof -
  have "sorted (map (order_key ''date'') (sort_key (order_key ''date'') docs))"
    by (rule sorted_sort_key)
  then have "sorted_wrt (\<lambda>x y. order_key ''date'' x \<le> order_key ''date'' y)
      (sort_key (order_key ''date'') docs)"
    by (simp add: sorted_wrt_map)
  then have "sorted_wrt (\<lambda>x y. order_key ''date'' y \<le> order_key ''date'' x)
      (rev (sort_key (order_key ''date'') docs))"
    by (simp add: sorted_wrt_rev)
  with assms have "sorted_wrt (\<lambda>x y. order_key ''date'' y \<le> order_key ''date'' x)
      (map stored_form logs)" by simp
  then have "sorted_wrt (\<lambda>a b. order_key ''date'' (stored_form b) \<le> order_key ''date'' (stored_form a)) logs"
    by (simp add: sorted_wrt_map)
  then show ?thesis
    by (rule sorted_wrt_mono_rel[rotated]) (auto simp: order_key_stored_form)
qed

lemma count_list_distinct: "distinct xs \<Longrightarrow> x \<in> set xs \<Longrightarrow> count_list xs x = 1"
  by (induction xs) (auto simp: count_list_0_iff)

lemma distinct_logs:
  assumes "map stored_form logs = rev (sort_key k docs)" and "distinct (map fst docs)"
  shows "distinct (map id' logs)"
proof -
  have "map id' logs = map fst (map stored_form logs)"
    by (simp add: stored_form_def comp_def)
  also have "\<dots> = map fst (rev (sort_key k docs))" using assms(1) by simp
  finally have "mset (map id' logs) = mset (map fst docs)"
    by simp
  then show ?thesis using assms(2) by (metis mset_eq_imp_distinct_iff)
qed

lemma last_of_sorted_desc:
  "sorted_wrt (\<lambda>a b. date b \<le> date a) (logs :: LogEntryResponse list) \<Longrightarrow> x \<in> set logs \<Longrightarrow>
   (\<And>y. y \<in> set logs \<Longrightarrow> y \<noteq> x \<Longrightarrow> date x < date y) \<Longrightarrow> last logs = x"
proof (induction logs)
  case Nil
  then show ?case by simp
next
  case (Cons a logs)
  show ?case
  proof (cases "logs = []")
    case True
    with Cons.prems(2) show ?thesis by simp
  next
    case False
    have "x \<in> set logs"
    proof (rule ccontr)
      assume n: "x \<notin> set logs"
      with Cons.prems(2) have ax: "a = x" by simp
      from False obtain z where z: "z \<in> set logs" by (cases logs) auto
      with n have "z \<noteq> x" by blast
      with z Cons.prems(3) have "date x < date z" by simp
      moreover from Cons.prems(1) z ax have "date z \<le> date x" by simp
      ultimately show False by simp
    qed
    moreover from Cons.prems(1) have "sorted_wrt (\<lambda>a b. date b \<le> date a) logs" by simp
    ultimately have "last logs = x" using Cons.prems(3) by (intro Cons.IH) simp_all
    with False show ?thesis by simp
  qed
qed

subsection \<open>The handlers\<close>

lemma split_acc_no_occurrence:
  "\<not> occurs_in sep s \<Longrightarrow> split_acc sep acc s = [rev acc @ s]"
  by (induction s arbitrary: acc) auto

lemma py_split_no_occurrence: "\<not> occurs_in sep s \<Longrightarrow> py_split s sep = [s]"
  by (simp add: py_split_def split_acc_no_occurrence)

lemma snd_create_log:
  "snd (create_log now auto_id log user_id (Some st)) =
     Some (doc_set st (collection_path user_id @ ''/'' @ auto_id) (model_dump log))"
  by (simp add: create_log_def create_log_try_def Let_def)

lemma fst_create_log:
  "fst (create_log now auto_id log user_id (Some st)) = Inr (with_id log auto_id)"
  by (simp add: create_log_def create_log_try_def Let_def init_dump except_500_def)

lemma update_log_missing:
  "doc_get st (doc_path user_id log_id) = None \<Longrightarrow>
   update_log now log_id log user_id (Some st)
     = (Inl \<lparr>status_code = 500, detail = ''Failed to update log: 404: Log not found''\<rparr>, Some st)"
  by (simp add: update_log_def update_log_try_def except_500_def digit_char_def)

lemma update_log_existing:
  "doc_get st (doc_path user_id log_id) = Some old \<Longrightarrow>
   update_log now log_id log user_id (Some st)
     = (except_500 ''Failed to update log: ''
          (LogEntryResponse_init now log_id (old ++ model_dump log)),
        Some (doc_set st (doc_path user_id log_id) (old ++ model_dump log)))"
  by (simp add: update_log_def update_log_try_def Let_def doc_update_existing doc_get_doc_set)

lemma get_logs_wf:
  assumes "wf_namespace user_id st"
  shows "\<exists>logs. get_logs now user_id (Some st) = Inr logs
           \<and> map stored_form logs = rev (sort_key (order_key ''date'') (namespace_docs user_id st))"
proof -
  let ?docs = "rev (sort_key (order_key ''date'') (namespace_docs user_id st))"
  from assms have a: "list_all (\<lambda>e. log_document (snd e)) (namespace_docs user_id st)"
    by (simp add: wf_namespace_def)
  have s: "order_by_desc_stream (collection_path user_id) ''date'' st = ?docs"
    using a by (rule stream_wf)
  have "set ?docs = set (namespace_docs user_id st)" by simp
  with a have "list_all (\<lambda>e. log_document (snd e)) ?docs"
    unfolding list_all_iff by blast
  then obtain logs where l: "build_logs now ?docs = Inr logs" "map stored_form logs = ?docs"
    using build_logs_wf by blast
  have "get_logs now user_id (Some st) = except_500 ''Failed to retrieve logs: '' (build_logs now ?docs)"
    by (simp only: get_logs_def get_logs_try_def option.case s)
  with l have "get_logs now user_id (Some st) = Inr logs"
    by (simp add: except_500_def)
  with l(2) show ?thesis by blast
qed

lemma created_in_listing:
  assumes "wf_namespace user_id st" and "is_doc_id auto_id"
  shows "\<exists>logs. get_logs now' user_id (snd (create_log now auto_id log user_id (Some st))) = Inr logs
           \<and> with_id log auto_id \<in> set logs \<and> distinct (map id' logs)
           \<and> sorted_wrt (\<lambda>a b. date b \<le> date a) logs
           \<and> stored_form ` set logs \<subseteq> insert (auto_id, model_dump log) (set (namespace_docs user_id st))"
proof -
  let ?p = "collection_path user_id @ ''/'' @ auto_id"
  let ?st' = "doc_set st ?p (model_dump log)"
  have wf': "wf_namespace user_id ?st'"
    using assms(1) by (rule wf_namespace_doc_set) (rule log_document_model_dump)
  then obtain logs where g: "get_logs now' user_id (Some ?st') = Inr logs"
    and m: "map stored_form logs = rev (sort_key (order_key ''date'') (namespace_docs user_id ?st'))"
    using get_logs_wf by blast
  from m have "set (map stored_form logs) = set (rev (sort_key (order_key ''date'') (namespace_docs user_id ?st')))"
    by simp
  then have s: "stored_form ` set logs = set (namespace_docs user_id ?st')" by simp
  have "(auto_id, model_dump log) \<in> set (namespace_docs user_id ?st')"
    using assms(2) by (simp add: namespace_docs_iff doc_set_member)
  with s have "stored_form (with_id log auto_id) \<in> stored_form ` set logs"
    by (simp add: stored_form_with_id)
  then obtain r where r: "r \<in> set logs" and "stored_form (with_id log auto_id) = stored_form r"
    by blast
  then have "with_id log auto_id = r" by (intro stored_form_inj)
  with r have mem: "with_id log auto_id \<in> set logs" by simp
  from wf' have "distinct (map fst (namespace_docs user_id ?st'))"
    by (simp add: wf_namespace_def distinct_namespace_docs)
  with m have d: "distinct (map id' logs)" by (rule distinct_logs)
  from m have so: "sorted_wrt (\<lambda>a b. date b \<le> date a) logs" by (rule sorted_desc_logs)
  from s have sub: "stored_form ` set logs \<subseteq> insert (auto_id, model_dump log) (set (namespace_docs user_id st))"
    using namespace_docs_doc_set_subset[of user_id st auto_id "model_dump log"] by simp
  from g mem d so sub show ?thesis by (simp add: snd_create_log)
qed

lemma earliest_created_is_last:
  assumes wf: "wf_namespace user_id st" and i: "is_doc_id auto_id"
    and g: "get_logs now user_id (Some st) = Inr logs"
    and early: "\<forall>r \<in> set logs. date log < date r"
  shows "\<exists>logs'. get_logs now'' user_id (snd (create_log now' auto_id log user_id (Some st))) = Inr logs'
           \<and> logs' \<noteq> [] \<and> last logs' = with_id log auto_id"
proof -
  obtain logs0 where g0: "get_logs now user_id (Some st) = Inr logs0"
    and m0: "map stored_form logs0 = rev (sort_key (order_key ''date'') (namespace_docs user_id st))"
    using get_logs_wf[OF wf] by blast
  from g g0 have "logs0 = logs" by simp
  with m0 have "set (map stored_form logs) = set (rev (sort_key (order_key ''date'') (namespace_docs user_id st)))"
    by simp
  then have s0: "stored_form ` set logs = set (namespace_docs user_id st)" by simp
  obtain logs' where g': "get_logs now'' user_id (snd (create_log now' auto_id log user_id (Some st))) = Inr logs'"
    and mem: "with_id log auto_id \<in> set logs'"
    and so: "sorted_wrt (\<lambda>a b. date b \<le> date a) logs'"
    and sub: "stored_form ` set logs' \<subseteq> insert (auto_id, model_dump log) (set (namespace_docs user_id st))"
    using created_in_listing[OF wf i] by blast
  have "date (with_id log auto_id) < date y" if y: "y \<in> set logs'" and ne: "y \<noteq> with_id log auto_id" for y
  proof -
    from y sub have "stored_form y = (auto_id, model_dump log) \<or> stored_form y \<in> set (namespace_docs user_id st)"
      by blast
    moreover have "stored_form y \<noteq> (auto_id, model_dump log)"
    proof
      assume "stored_form y = (auto_id, model_dump log)"
      then have "stored_form y = stored_form (with_id log auto_id)" by (simp add: stored_form_with_id)
      then have "y = with_id log auto_id" by (rule stored_form_inj)
      with ne show False by simp
    qed
    ultimately have "stored_form y \<in> stored_form ` set logs" using s0 by simp
    then obtain r where r: "r \<in> set logs" and "stored_form y = stored_form r" by blast
    then have "y = r" by (intro stored_form_inj)
    with r early have "date log < date y" by blast
    moreover have "date (with_id log auto_id) = date log"
      by (cases log) (simp add: with_id_def LogEntry.defs LogEntryResponse.defs)
    ultimately show ?thesis by simp
  qed
  with so mem have "last logs' = with_id log auto_id" by (intro last_of_sorted_desc)
  moreover from mem have "logs' \<noteq> []" by auto
  ultimately show ?thesis using g' by blast
qed


text \<open>The handlers keep a user's namespace well formed, whoever the caller is.\<close>

lemma wf_namespace_create_log:
  assumes "wf_namespace user_id st"
  shows "\<exists>st'. snd (create_log now auto_id log caller (Some st)) = Some st' \<and> wf_namespace user_id st'"
proof -
  have "wf_namespace user_id (doc_set st (collection_path caller @ ''/'' @ auto_id) (model_dump log))"
    using assms by (rule wf_namespace_doc_set) (rule log_document_model_dump)
  then show ?thesis by (simp add: snd_create_log)
qed

lemma wf_namespace_update_log:
  assumes "wf_namespace user_id st"
  shows "\<exists>st'. snd (update_log now log_id log caller (Some st)) = Some st' \<and> wf_namespace user_id st'"
proof (cases "doc_get st (doc_path caller log_id)")
  case None
  with assms show ?thesis by (simp add: update_log_missing)
next
  case (Some old)
  with assms
  have "wf_namespace user_id (doc_set st (doc_path caller log_id) (old ++ model_dump log))"
    by (rule wf_namespace_doc_update)
  with Some show ?thesis by (simp add: update_log_existing)
qed

lemma wf_namespace_delete_log:
  assumes "wf_namespace user_id st"
  shows "\<exists>st'. snd (delete_log log_id caller (Some st)) = Some st' \<and> wf_namespace user_id st'"
proof (cases "doc_get st (doc_path caller log_id)")
  case None
  with assms show ?thesis by (simp add: delete_log_def delete_log_try_def)
next
  case (Some old)
  from assms have "wf_namespace user_id (doc_delete st (doc_path caller log_id))"
    by (rule wf_namespace_doc_delete)
  with Some show ?thesis by (simp add: delete_log_def delete_log_try_def)
qed

section \<open>The claims\<close>

text \<open>
  C1. Per-user isolation. For distinct users A and B, a record that \<open>create_log\<close> writes
  for A does not reach what \<open>get_logs\<close> returns for B: the listing of B is the same
  before and after the creation, and the path of the new document, which is built from
  the application identifier, the verified user identifier and the identifier generated
  by the store, is no document of B's collection.
\<close>

theorem create_invisible_to_other_user:
  assumes "user_a \<noteq> user_b" and "is_doc_id auto_id"
  shows "get_logs now' user_b (snd (create_log now auto_id log user_a (Some st)))
           = get_logs now' user_b (Some st)
         \<and> child_id (collection_path user_b) (collection_path user_a @ ''/'' @ auto_id) = None"
proof -
  from assms
  have c: "child_id (collection_path user_b) (collection_path user_a @ ''/'' @ auto_id) = None"
    by (rule child_other)
  then show ?thesis
    by (simp only: snd_create_log get_logs_def get_logs_try_def option.case stream_create_other)
qed

theorem create_invisible_to_other_user_witness:
  "''u1'' \<noteq> ''u2'' \<and> is_doc_id ''n1''
   \<and> get_logs ''2026-04-01T08:00:00'' ''u2''
        (snd (create_log ''2026-04-01T07:00:00'' ''n1'' example_log ''u1'' (Some example_store)))
       = get_logs ''2026-04-01T08:00:00'' ''u2'' (Some example_store)
   \<and> child_id (collection_path ''u2'') (collection_path ''u1'' @ ''/'' @ ''n1'') = None"
  using create_invisible_to_other_user
    [of "''u1''" "''u2''" "''n1''" "''2026-04-01T08:00:00''" "''2026-04-01T07:00:00''"
        example_log example_store]
  by (simp add: is_doc_id_def)

text \<open>
  C2. The claim: \<open>update_log\<close> and \<open>delete_log\<close> on an identifier that is not in the
  caller's namespace answer 404. The handlers raise the 404 inside their own
  \<^verbatim>\<open>try\<close> block, whose \<^verbatim>\<open>except Exception\<close> clause catches it and raises a 500
  instead. The theorem evaluates an authenticated PUT and DELETE on the absent
  identifier \<open>zz\<close>, and a DELETE repeated on the identifier \<open>a1\<close>.
\<close>

theorem missing_id_answers_500:
  "fst (app example_verifier ''2026-04-01T08:00:00'' ''n1'' (Some example_store)
          (Some ''Bearer tok'') (PUT_logs ''zz'' example_log))
     = Inl \<lparr>status_code = 500, detail = ''Failed to update log: 404: Log not found''\<rparr>
   \<and> fst (app example_verifier ''2026-04-01T08:00:00'' ''n1'' (Some example_store)
          (Some ''Bearer tok'') (DELETE_logs ''zz''))
     = Inl \<lparr>status_code = 500, detail = ''Failed to delete log: 404: Log not found''\<rparr>
   \<and> fst (delete_log ''a1'' ''u1'' (snd (delete_log ''a1'' ''u1'' (Some example_store))))
     = Inl \<lparr>status_code = 500, detail = ''Failed to delete log: 404: Log not found''\<rparr>"
  by (simp add: app_def Depends_get_current_user_def get_current_user_def py_split_def
      example_verifier_def update_log_def update_log_try_def delete_log_def
      delete_log_try_def doc_get_def doc_delete_def example_store_def doc_path_def appId_def
      except_500_def respond_def digit_char_def)

text \<open>
  C3, as the code has it. \<open>update_log\<close> on an existing document writes all nine
  fields of the submitted record (a field the caller left out with its default), so no
  previous value of a field of \<open>LogEntry\<close> remains, and it keeps every field of the
  previous document that is no field of \<open>LogEntry\<close>. The call answers with the
  submitted record under the same identifier unless the previous document has a field
  \<open>id\<close>. When the previous document has fields of \<open>LogEntry\<close> only, the stored
  document is exactly the submitted one.
\<close>

theorem update_overwrites_log_fields:
  assumes "doc_get st (doc_path user_id log_id) = Some old"
  shows "\<exists>stored.
           snd (update_log now log_id log user_id (Some st))
             = Some (doc_set st (doc_path user_id log_id) stored)
         \<and> doc_get (doc_set st (doc_path user_id log_id) stored) (doc_path user_id log_id)
             = Some stored
         \<and> (\<forall>f \<in> set LogEntry_fields. stored f = model_dump log f)
         \<and> (\<forall>f. f \<notin> set LogEntry_fields \<longrightarrow> stored f = old f)
         \<and> (old ''id'' = None \<longrightarrow>
              fst (update_log now log_id log user_id (Some st)) = Inr (with_id log log_id))
         \<and> (dom old \<subseteq> set LogEntry_fields \<longrightarrow> stored = model_dump log)"
proof -
  let ?p = "doc_path user_id log_id" and ?s = "old ++ model_dump log"
  from assms have u: "update_log now log_id log user_id (Some st)
      = (except_500 ''Failed to update log: '' (LogEntryResponse_init now log_id ?s),
         Some (doc_set st ?p ?s))"
    by (rule update_log_existing)
  then have 1: "snd (update_log now log_id log user_id (Some st)) = Some (doc_set st ?p ?s)"
    by simp
  have 2: "doc_get (doc_set st ?p ?s) ?p = Some ?s" by (rule doc_get_doc_set)
  have 3: "\<forall>f \<in> set LogEntry_fields. ?s f = model_dump log f"
    by (simp add: model_dump_field)
  have 4: "\<forall>f. f \<notin> set LogEntry_fields \<longrightarrow> ?s f = old f"
    by (simp add: model_dump_other)
  have 5: "old ''id'' = None \<longrightarrow>
      fst (update_log now log_id log user_id (Some st)) = Inr (with_id log log_id)"
    using u by (simp add: init_merged except_500_def)
  have 6: "dom old \<subseteq> set LogEntry_fields \<longrightarrow> ?s = model_dump log"
    by (simp add: map_add_absorb dom_model_dump)
  show ?thesis
    using 1 2 3 4 5 6 by - (rule exI[of _ ?s], (intro conjI; assumption))
qed

theorem update_overwrites_log_fields_witness:
  "doc_get foreign_store (doc_path ''u1'' ''a3'') = Some foreign_doc
   \<and> ''startTime'' \<in> set LogEntry_fields \<and> ''owner'' \<notin> set LogEntry_fields
   \<and> foreign_doc ''id'' = None
   \<and> foreign_doc ''startTime'' = Some (Str ''09:00'')
   \<and> fst (update_log ''2026-04-01T08:00:00'' ''a3'' example_log ''u1'' (Some foreign_store))
       = Inr (with_id example_log ''a3'')
   \<and> (\<exists>stored.
         snd (update_log ''2026-04-01T08:00:00'' ''a3'' example_log ''u1'' (Some foreign_store))
           = Some (doc_set foreign_store (doc_path ''u1'' ''a3'') stored)
       \<and> stored ''startTime'' = Some Null
       \<and> stored ''owner'' = Some (Str ''legacy''))"
proof -
  have g: "doc_get foreign_store (doc_path ''u1'' ''a3'') = Some foreign_doc"
    by (simp add: doc_get_def foreign_store_def)
  have f1: "''startTime'' \<in> set LogEntry_fields" and f2: "''owner'' \<notin> set LogEntry_fields"
    by (simp_all add: LogEntry_fields_def)
  have i: "foreign_doc ''id'' = None" and s: "foreign_doc ''startTime'' = Some (Str ''09:00'')"
    and o: "foreign_doc ''owner'' = Some (Str ''legacy'')"
    by (simp_all add: foreign_doc_def model_dump_def)
  have n: "model_dump example_log ''startTime'' = Some Null"
    by (simp add: model_dump_def example_log_def LogEntry_init_def)
  from g f1 f2 i s o n show ?thesis
    using update_overwrites_log_fields [OF g, of "''2026-04-01T08:00:00''" example_log]
    by auto
qed

text \<open>
  C3 as stated fails: the store is asked to \<^verbatim>\<open>update\<close>, not to \<^verbatim>\<open>set\<close>, so a
  field of the previous document that the submitted record does not have survives a
  successful update.
\<close>

theorem foreign_field_survives_update:
  "fst (update_log ''2026-04-01T08:00:00'' ''a3'' example_log ''u1'' (Some foreign_store))
     = Inr (with_id example_log ''a3'')
   \<and> snd (update_log ''2026-04-01T08:00:00'' ''a3'' example_log ''u1'' (Some foreign_store))
     = Some [(doc_path ''u1'' ''a3'', foreign_doc ++ model_dump example_log)]
   \<and> (foreign_doc ++ model_dump example_log) ''owner'' = Some (Str ''legacy'')
   \<and> model_dump example_log ''owner'' = None"
proof -
  have g: "doc_get foreign_store (doc_path ''u1'' ''a3'') = Some foreign_doc"
    by (simp add: doc_get_def foreign_store_def)
  have i: "foreign_doc ''id'' = None"
    by (simp add: foreign_doc_def model_dump_def)
  have "update_log ''2026-04-01T08:00:00'' ''a3'' example_log ''u1'' (Some foreign_store)
      = (except_500 ''Failed to update log: ''
           (LogEntryResponse_init ''2026-04-01T08:00:00'' ''a3'' (foreign_doc ++ model_dump example_log)),
         Some (doc_set foreign_store (doc_path ''u1'' ''a3'') (foreign_doc ++ model_dump example_log)))"
    using g by (rule update_log_existing)
  moreover have "doc_set foreign_store (doc_path ''u1'' ''a3'') (foreign_doc ++ model_dump example_log)
      = [(doc_path ''u1'' ''a3'', foreign_doc ++ model_dump example_log)]"
    by (simp add: doc_set_def foreign_store_def)
  moreover have "(foreign_doc ++ model_dump example_log) ''owner'' = Some (Str ''legacy'')"
    by (simp add: foreign_doc_def model_dump_def map_add_def)
  moreover have "model_dump example_log ''owner'' = None"
    by (simp add: model_dump_def)
  ultimately show ?thesis
    using i by (simp add: init_merged except_500_def)
qed

text \<open>
  C4, as the code has it. With the store handle initialised, every request that
  reaches the dependency of a route under \<^verbatim>\<open>/logs\<close> (a \<^verbatim>\<open>GET /logs\<close>, a
  \<^verbatim>\<open>DELETE /logs/{id}\<close>, or a \<^verbatim>\<open>POST /logs\<close> or \<^verbatim>\<open>PUT /logs/{id}\<close>
  whose body is a valid \<open>LogEntry\<close>) and whose \<^verbatim>\<open>Authorization\<close> header is
  absent (or empty) is answered 401 with the detail \<open>Authorization header missing\<close>,
  whatever the verifier and whatever the store holds, and the store is left as it was.
\<close>

theorem missing_header_401:
  assumes "authorization = None \<or> authorization = Some []" and "req \<noteq> GET_root"
  shows "app verify_id_token now auto_id (Some st) authorization req
           = (Inl \<lparr>status_code = 401, detail = ''Authorization header missing''\<rparr>, Some st)"
  using assms
  by (cases req) (auto simp: app_def Depends_get_current_user_def get_current_user_def)

theorem missing_header_401_witness:
  "(None = (None :: string option) \<or> None = Some [])
   \<and> POST_logs example_log \<noteq> GET_root
   \<and> app example_verifier ''2026-04-01T08:00:00'' ''n1'' (Some example_store) None
        (POST_logs example_log)
       = (Inl \<lparr>status_code = 401, detail = ''Authorization header missing''\<rparr>,
          Some example_store)"
  using missing_header_401
    [of None "POST_logs example_log" example_verifier "''2026-04-01T08:00:00''" "''n1''"
        example_store]
  by simp

text \<open>
  C4 as stated fails when the store handle is \<^verbatim>\<open>None\<close>: \<open>get_current_user\<close> tests
  the handle before it looks at the header, and the answer is 500.
\<close>

theorem missing_header_without_store_500:
  "app example_verifier ''2026-04-01T08:00:00'' ''n1'' None None GET_logs
     = (Inl \<lparr>status_code = 500, detail = ''Firebase connection not available.''\<rparr>, None)"
  by (simp add: app_def Depends_get_current_user_def get_current_user_def)

text \<open>
  C5. Round trip of \<open>create_log\<close> and \<open>get_logs\<close>. In a well-formed namespace, with an
  identifier from the store, \<open>create_log\<close> returns the submitted entry with that
  identifier, and the listing that follows succeeds and holds that record exactly once.
\<close>

theorem create_then_list_roundtrip:
  assumes "wf_namespace user_id st" and "is_doc_id auto_id"
  shows "fst (create_log now auto_id log user_id (Some st)) = Inr (with_id log auto_id)
         \<and> (\<exists>logs. get_logs now' user_id (snd (create_log now auto_id log user_id (Some st)))
                      = Inr logs
               \<and> count_list logs (with_id log auto_id) = 1)"
proof -
  obtain logs
    where g: "get_logs now' user_id (snd (create_log now auto_id log user_id (Some st))) = Inr logs"
    and mem: "with_id log auto_id \<in> set logs" and d: "distinct (map id' logs)"
    using created_in_listing[OF assms] by blast
  from d have "distinct logs" by (simp add: distinct_map)
  with mem have "count_list logs (with_id log auto_id) = 1" by (simp add: count_list_distinct)
  with g show ?thesis by (simp add: fst_create_log)
qed

theorem create_then_list_roundtrip_witness:
  "wf_namespace ''u1'' example_store \<and> is_doc_id ''n1''
   \<and> fst (create_log ''2026-04-01T07:00:00'' ''n1'' example_log ''u1'' (Some example_store))
       = Inr (with_id example_log ''n1'')
   \<and> (\<exists>logs. get_logs ''2026-04-01T08:00:00'' ''u1''
                 (snd (create_log ''2026-04-01T07:00:00'' ''n1'' example_log ''u1''
                        (Some example_store)))
                = Inr logs
          \<and> count_list logs (with_id example_log ''n1'') = 1)"
proof -
  have w: "wf_namespace ''u1'' example_store"
    by (simp add: wf_namespace_def namespace_docs_def example_store_def namespace_entry_def
        doc_path_def collection_path_def child_id_def appId_def Let_def is_doc_id_def
        log_document_model_dump)
  have i: "is_doc_id ''n1''" by (simp add: is_doc_id_def)
  from w i show ?thesis
    using create_then_list_roundtrip
      [OF w i, of "''2026-04-01T07:00:00''" example_log "''2026-04-01T08:00:00''"]
    by simp
qed

text \<open>
  C6. In a well-formed namespace \<open>get_logs\<close> never fails; it returns the documents of
  the namespace, each once, by descending \<open>date\<close>; the result is empty when the
  namespace is; and an entry created with a \<open>date\<close> below all listed ones comes last
  in the next listing.
\<close>

theorem get_logs_sorted_desc:
  assumes "wf_namespace user_id st"
  shows "\<exists>logs. get_logs now user_id (Some st) = Inr logs
           \<and> mset (map stored_form logs) = mset (namespace_docs user_id st)
           \<and> sorted_wrt (\<lambda>a b. date b \<le> date a) logs
           \<and> (namespace_docs user_id st = [] \<longrightarrow> logs = [])
           \<and> (\<forall>auto_id log now'.
                 is_doc_id auto_id \<and> (\<forall>r \<in> set logs. date log < date r) \<longrightarrow>
                 (\<exists>logs'. get_logs now user_id
                             (snd (create_log now' auto_id log user_id (Some st))) = Inr logs'
                    \<and> logs' \<noteq> [] \<and> last logs' = with_id log auto_id))"
proof -
  obtain logs where g: "get_logs now user_id (Some st) = Inr logs"
    and m: "map stored_form logs = rev (sort_key (order_key ''date'') (namespace_docs user_id st))"
    using get_logs_wf[OF assms] by blast
  from m have "mset (map stored_form logs)
      = mset (rev (sort_key (order_key ''date'') (namespace_docs user_id st)))"
    by simp
  then have ms: "mset (map stored_form logs) = mset (namespace_docs user_id st)" by simp
  from m have so: "sorted_wrt (\<lambda>a b. date b \<le> date a) logs" by (rule sorted_desc_logs)
  from ms have em: "namespace_docs user_id st = [] \<longrightarrow> logs = []" by auto
  have "\<exists>logs'. get_logs now user_id (snd (create_log now' auto_id log user_id (Some st))) = Inr logs'
          \<and> logs' \<noteq> [] \<and> last logs' = with_id log auto_id"
    if "is_doc_id auto_id \<and> (\<forall>r \<in> set logs. date log < date r)" for auto_id log now'
    using that earliest_created_is_last[OF assms _ g] by blast
  with g ms so em show ?thesis by blast
qed

theorem get_logs_sorted_desc_witness:
  "wf_namespace ''u1'' example_store \<and> is_doc_id ''n1''
   \<and> get_logs ''2026-04-01T08:00:00'' ''u1'' (Some example_store)
       = Inr [with_id (example_log\<lparr>startTime := Some ''09:00'',
                                     date := ''2026-03-01T09:00:00''\<rparr>) ''a2'',
              with_id example_log ''a1'']
   \<and> date (example_log\<lparr>date := ''2025-12-31T23:00:00''\<rparr>)
       < date (with_id (example_log\<lparr>startTime := Some ''09:00'',
                                      date := ''2026-03-01T09:00:00''\<rparr>) ''a2'')
   \<and> date (example_log\<lparr>date := ''2025-12-31T23:00:00''\<rparr>) < date (with_id example_log ''a1'')
   \<and> (\<exists>logs'. get_logs ''2026-04-01T08:00:00'' ''u1''
                  (snd (create_log ''2026-04-01T07:00:00'' ''n1''
                         (example_log\<lparr>date := ''2025-12-31T23:00:00''\<rparr>) ''u1''
                         (Some example_store)))
                 = Inr logs'
          \<and> logs' \<noteq> []
          \<and> last logs' = with_id (example_log\<lparr>date := ''2025-12-31T23:00:00''\<rparr>) ''n1'')"
proof -
  let ?late = "example_log\<lparr>startTime := Some ''09:00'', date := ''2026-03-01T09:00:00''\<rparr>"
  let ?early = "example_log\<lparr>date := ''2025-12-31T23:00:00''\<rparr>"
  have w: "wf_namespace ''u1'' example_store"
    by (simp add: wf_namespace_def namespace_docs_def example_store_def namespace_entry_def
        doc_path_def collection_path_def child_id_def appId_def Let_def is_doc_id_def
        log_document_model_dump)
  have i: "is_doc_id ''n1''" by (simp add: is_doc_id_def)
  have g: "get_logs ''2026-04-01T08:00:00'' ''u1'' (Some example_store)
      = Inr [with_id ?late ''a2'', with_id example_log ''a1'']"
    by (simp add: get_logs_def get_logs_try_def order_by_desc_stream_def snapshot_def
        example_store_def doc_path_def collection_path_def child_id_def appId_def Let_def
        is_doc_id_def order_key_def model_dump_date init_dump except_500_def
        example_log_def LogEntry_init_def)
  have d2: "date ?early < date (with_id ?late ''a2'')"
    by (simp add: with_id_def LogEntry.defs LogEntryResponse.defs example_log_def LogEntry_init_def)
  have d1: "date ?early < date (with_id example_log ''a1'')"
    by (simp add: with_id_def LogEntry.defs LogEntryResponse.defs example_log_def LogEntry_init_def)
  from d1 d2 have "\<forall>r \<in> set [with_id ?late ''a2'', with_id example_log ''a1'']. date ?early < date r"
    by simp
  with i g have "\<exists>logs'. get_logs ''2026-04-01T08:00:00'' ''u1''
        (snd (create_log ''2026-04-01T07:00:00'' ''n1'' ?early ''u1'' (Some example_store)))
        = Inr logs'
      \<and> logs' \<noteq> [] \<and> last logs' = with_id ?early ''n1''"
    using get_logs_sorted_desc [OF w, of "''2026-04-01T08:00:00''"] by auto
  with w i g d1 d2 show ?thesis by blast
qed

text \<open>
  C7. \<open>update_log\<close> is idempotent: a second call with the same record returns what the
  first returned and leaves the store as the first left it, for every store, identifier
  and record (also when the document does not exist and both calls fail).
\<close>

theorem update_idempotent:
  "update_log now' log_id log user_id (snd (update_log now log_id log user_id db))
     = update_log now log_id log user_id db"
proof (cases db)
  case None
  then show ?thesis by (simp add: update_log_def update_log_try_def)
next
  case (Some st)
  show ?thesis
  proof (cases "doc_get st (doc_path user_id log_id)")
    case None
    with \<open>db = Some st\<close> show ?thesis by (simp add: update_log_missing)
  next
    case (Some old)
    let ?p = "doc_path user_id log_id" and ?d = "model_dump log"
    have "(old ++ ?d) ''date'' \<noteq> None"
      by (simp add: model_dump_date)
    then have i: "LogEntryResponse_init now' log_id (old ++ ?d)
        = LogEntryResponse_init now log_id (old ++ ?d)"
      by (rule init_now_irrelevant)
    have once: "update_log now log_id log user_id (Some st)
        = (except_500 ''Failed to update log: '' (LogEntryResponse_init now log_id (old ++ ?d)),
           Some (doc_set st ?p (old ++ ?d)))"
      using Some by (rule update_log_existing)
    have "doc_get (doc_set st ?p (old ++ ?d)) ?p = Some (old ++ ?d)"
      by (rule doc_get_doc_set)
    then have "update_log now' log_id log user_id (Some (doc_set st ?p (old ++ ?d)))
        = (except_500 ''Failed to update log: ''
             (LogEntryResponse_init now' log_id ((old ++ ?d) ++ ?d)),
           Some (doc_set (doc_set st ?p (old ++ ?d)) ?p ((old ++ ?d) ++ ?d)))"
      by (rule update_log_existing)
    with once i \<open>db = Some st\<close> show ?thesis
      by (simp add: map_add_twice doc_set_twice)
  qed
qed

theorem update_idempotent_witness:
  "update_log ''2026-04-01T09:00:00'' ''a1'' example_log ''u1''
     (snd (update_log ''2026-04-01T08:00:00'' ''a1'' example_log ''u1'' (Some example_store)))
   = update_log ''2026-04-01T08:00:00'' ''a1'' example_log ''u1'' (Some example_store)"
  by (rule update_idempotent)

text \<open>
  C8, as the code has it. With the store handle initialised, a request that reaches the
  dependency of a route under \<^verbatim>\<open>/logs\<close> (a \<^verbatim>\<open>GET /logs\<close>, a
  \<^verbatim>\<open>DELETE /logs/{id}\<close>, or a \<^verbatim>\<open>POST /logs\<close> or \<^verbatim>\<open>PUT /logs/{id}\<close>
  whose body is a valid \<open>LogEntry\<close>) and whose header is not empty and contains no
  occurrence of \<open>Bearer \<close> is answered 401 with the detail with which a rejected token
  is answered, followed by the text of the index error; the verifier is not consulted and
  the store is left as it was.
\<close>

theorem header_without_bearer_401:
  assumes "auth_header \<noteq> []" and "\<not> occurs_in ''Bearer '' auth_header" and "req \<noteq> GET_root"
  shows "app verify_id_token now auto_id (Some st) (Some auth_header) req
           = (Inl \<lparr>status_code = 401,
                   detail = ''Invalid or expired authentication token: list index out of range''\<rparr>,
              Some st)"
  using assms
  by (cases req)
    (simp_all add: app_def Depends_get_current_user_def get_current_user_def
      py_split_no_occurrence)

theorem header_without_bearer_401_witness:
  "''Basic abc'' \<noteq> [] \<and> \<not> occurs_in ''Bearer '' ''Basic abc'' \<and> GET_logs \<noteq> GET_root
   \<and> app example_verifier ''2026-04-01T08:00:00'' ''n1'' (Some example_store)
        (Some ''Basic abc'') GET_logs
       = (Inl \<lparr>status_code = 401,
               detail = ''Invalid or expired authentication token: list index out of range''\<rparr>,
          Some example_store)"
  using header_without_bearer_401
    [of "''Basic abc''" GET_logs example_verifier "''2026-04-01T08:00:00''" "''n1''" example_store]
  by simp

text \<open>
  C8 as stated fails. A header without the prefix \<open>Bearer \<close> is not always refused:
  \<open>xBearer tok\<close> authenticates the user of the token \<open>tok\<close>. And the outcome of a
  refused header is the one of a rejected token: the same status and the same detail
  prefix, as the header \<open>Bearer bad\<close> shows.
\<close>

theorem header_without_prefix_accepted:
  "get_current_user example_verifier (Some example_store) (Some ''xBearer tok'') = Inr ''u1''
   \<and> get_current_user example_verifier (Some example_store) (Some ''Basic abc'')
       = Inl \<lparr>status_code = 401,
              detail = ''Invalid or expired authentication token: '' @ ''list index out of range''\<rparr>
   \<and> get_current_user example_verifier (Some example_store) (Some ''Bearer bad'')
       = Inl \<lparr>status_code = 401,
              detail = ''Invalid or expired authentication token: '' @ ''Token rejected''\<rparr>"
  by (simp add: get_current_user_def py_split_def example_verifier_def)

text \<open>
  C9. \<^verbatim>\<open>GET /\<close> is answered 200 with the welcome message, whatever the header, the
  verifier and the store handle are, and the store handle is left as it was.
\<close>

theorem read_root_static:
  "app verify_id_token now auto_id db authorization GET_root
     = (Inr (200, JsonMessage [(''message'', ''Welcome to the Daily Progress Log API!'')]), db)"
  by (simp add: app_def read_root_def)

theorem read_root_static_witness:
  "app example_verifier ''2026-04-01T08:00:00'' ''n1'' None None GET_root
     = (Inr (200, JsonMessage [(''message'', ''Welcome to the Daily Progress Log API!'')]), None)"
  by (rule read_root_static)

text \<open>
  C10. When no document with the identifier exists in the caller's namespace,
  \<open>update_log\<close> and \<open>delete_log\<close> fail and leave the store as it was.
\<close>

theorem failed_mutation_atomic:
  assumes "doc_get st (doc_path user_id log_id) = None"
  shows "snd (update_log now log_id log user_id (Some st)) = Some st
         \<and> snd (delete_log log_id user_id (Some st)) = Some st
         \<and> isl (fst (update_log now log_id log user_id (Some st)))
         \<and> isl (fst (delete_log log_id user_id (Some st)))"
  using assms
  by (simp add: update_log_def update_log_try_def delete_log_def delete_log_try_def except_500_def)

theorem failed_mutation_atomic_witness:
  "doc_get example_store (doc_path ''u1'' ''zz'') = None
   \<and> snd (update_log ''2026-04-01T08:00:00'' ''zz'' example_log ''u1'' (Some example_store))
       = Some example_store
   \<and> snd (delete_log ''zz'' ''u1'' (Some example_store)) = Some example_store
   \<and> isl (fst (update_log ''2026-04-01T08:00:00'' ''zz'' example_log ''u1'' (Some example_store)))
   \<and> isl (fst (delete_log ''zz'' ''u1'' (Some example_store)))"
proof -
  have g: "doc_get example_store (doc_path ''u1'' ''zz'') = None"
    by (simp add: doc_get_def example_store_def doc_path_def appId_def)
  from g show ?thesis
    using failed_mutation_atomic [OF g, of "''2026-04-01T08:00:00''" example_log] by simp
qed

end
